theory Spec2Isabelle
  imports Complex_Main
begin

section \<open>Data model of the transcription agent\<close>

text \<open>
  The development embeds \<^verbatim>\<open>agents/transcription_agent.py\<close>. Everything the agent does to
  the outside (messages handed to the room, files written, frames pushed to the speech
  engine, console lines, sleeping) is appended to a trace, in the order in which the code
  does it; the registry \<^verbatim>\<open>self.processing_tracks\<close> and the transcript files are components
  of an explicit state. What the outside decides (the readings of the clock, whether a
  \<^verbatim>\<open>publish_data\<close> call returns or raises, the events and frames of the two streams, the
  order in which the scheduler resumes coroutines) is an input of the model.
  Errors of the file system (a directory that cannot be made, a file that cannot be opened)
  are not part of the model, nor are the health server and the start-up of the worker.
\<close>

subsection \<open>Values of the JSON library\<close>

datatype json =
    JNull
  | JBool bool
  | JInt int
  | JFloat real
  | JStr string
  | JArr "json list"
  | JObj "(string \<times> json) list"

text \<open>
  What \<^verbatim>\<open>json.load\<close> finds in an existing file: text for which it raises
  \<^verbatim>\<open>JSONDecodeError\<close>, or the value it returns.
\<close>

datatype file_content = Unparsable | Json json

subsection \<open>Exceptions\<close>

datatype exn =
    IndexError
  | AttributeError
  | PublishError
  | SttError
  | AudioError
  | CancelledError

text \<open>
  \<^verbatim>\<open>except Exception\<close> catches every exception of the model but \<^verbatim>\<open>CancelledError\<close>,
  which derives from \<^verbatim>\<open>BaseException\<close>.
\<close>

fun is_Exception :: "exn \<Rightarrow> bool" where
  "is_Exception CancelledError = False"
| "is_Exception _ = True"

datatype status = Done | Raised exn

subsection \<open>Room objects and speech events\<close>

record participant =
  sid :: string
  identity :: string

datatype track_kind = KIND_AUDIO | KIND_VIDEO | KIND_UNKNOWN

record track =
  track_sid :: string
  kind :: track_kind

text \<open>
  An alternative of a speech event. \<open>alt_confidence = None\<close> stands for an object on which
  \<^verbatim>\<open>hasattr(alt, 'confidence')\<close> is false.
\<close>

record alternative =
  alt_text :: string
  alt_confidence :: "real option"

datatype speech_event_type =
    START_OF_SPEECH
  | INTERIM_TRANSCRIPT
  | FINAL_TRANSCRIPT
  | END_OF_SPEECH
  | RECOGNITION_USAGE

record speech_event =
  ev_type :: speech_event_type
  alternatives :: "alternative list"

type_synonym frame = nat

text \<open>An item of an asynchronous iterator: a value, or an exception raised in its place.\<close>

datatype 'a stream_item = Yield 'a | Throw exn

subsection \<open>The clock, the trace and the state\<close>

text \<open>
  A reading of \<^verbatim>\<open>datetime.now()\<close>, as the two renderings the code takes of it:
  \<^verbatim>\<open>strftime('%Y-%m-%d')\<close> and \<^verbatim>\<open>isoformat()\<close>.
\<close>

record datetime =
  ymd :: string
  isoformat :: string

datatype log_line =
    AlreadyProcessing string
  | StartingTranscription string string
  | EndOfSpeechDetected string
  | ErrorProcessing string exn
  | StoppedProcessing string
  | FinalLine string string
  | InterimLine string string
  | SavedTranscript string
  | StatusUpdateSent nat
  | AudioTrackRemoved string
  | NewAudioTrack string

datatype effect =
    Publish "(string \<times> json) list"
  | MkDir
  | WriteFile string json
  | PushFrame string frame
  | EndInput string
  | Print log_line
  | Sleep nat

record world =
  processing_tracks :: "string set"
  files :: "string \<rightharpoonup> file_content"
  trace :: "effect list"
  now_calls :: nat
  publish_calls :: nat

text \<open>
  The environment of a run: the name of the connected room, the reading returned by the
  \<open>k\<close>-th call of \<^verbatim>\<open>datetime.now()\<close>, and whether the \<open>k\<close>-th call of
  \<^verbatim>\<open>publish_data\<close> returns (\<open>False\<close>: it raises).
\<close>

record env =
  room_name :: string
  clock :: "nat \<Rightarrow> datetime"
  publish_ok :: "nat \<Rightarrow> bool"

definition emit :: "effect list \<Rightarrow> world \<Rightarrow> world" where
  "emit es w = w\<lparr>trace := trace w @ es\<rparr>"

definition now :: "env \<Rightarrow> world \<Rightarrow> datetime \<times> world" where
  "now e w = (clock e (now_calls w), w\<lparr>now_calls := Suc (now_calls w)\<rparr>)"

text \<open>
  \<^verbatim>\<open>await self.room.local_participant.publish_data(data, reliable=True)\<close>. The payload is
  kept as the dictionary of which \<^verbatim>\<open>json.dumps(...).encode('utf-8')\<close> is the serialisation.
\<close>

definition publish_data :: "env \<Rightarrow> (string \<times> json) list \<Rightarrow> world \<Rightarrow> status \<times> world" where
  "publish_data e message w =
     (let k = publish_calls w; w1 = w\<lparr>publish_calls := Suc k\<rparr>
      in if publish_ok e k then (Done, emit [Publish message] w1)
         else (Raised PublishError, w1))"

subsection \<open>Strings\<close>

text \<open>
  Characters are code points below 256. \<open>is_space\<close> lists those for which Python's
  \<^verbatim>\<open>str.isspace\<close> holds; \<^verbatim>\<open>str.strip()\<close> removes them from both ends.
\<close>

definition is_space :: "char \<Rightarrow> bool" where
  "is_space c = ((of_char c :: nat) \<in> set [9, 10, 11, 12, 13, 28, 29, 30, 31, 32, 133, 160])"

definition strip :: "string \<Rightarrow> string" where
  "strip s = rev (dropWhile is_space (rev (dropWhile is_space s)))"

text \<open>\<^verbatim>\<open>xs[0]\<close>: raises on the empty list.\<close>

definition first :: "'a list \<Rightarrow> exn + 'a" where
  "first xs = (case xs of [] \<Rightarrow> Inl IndexError | x # _ \<Rightarrow> Inr x)"

section \<open>Sending and saving\<close>

definition json_of_confidence :: "real option \<Rightarrow> json" where
  "json_of_confidence c = (case c of None \<Rightarrow> JNull | Some x \<Rightarrow> JFloat x)"

definition transcription_message ::
  "string \<Rightarrow> bool \<Rightarrow> string \<Rightarrow> datetime \<Rightarrow> real option \<Rightarrow> (string \<times> json) list" where
  "transcription_message text is_final who t confidence =
     [(''type'', JStr ''transcription''),
      (''text'', JStr text),
      (''isFinal'', JBool is_final),
      (''participant'', JStr who),
      (''timestamp'', JStr (isoformat t)),
      (''confidence'', json_of_confidence confidence)]"

definition send_transcription ::
  "env \<Rightarrow> string \<Rightarrow> bool \<Rightarrow> string \<Rightarrow> real option \<Rightarrow> world \<Rightarrow> status \<times> world" where
  "send_transcription e text is_final who confidence w =
     (if strip text = [] then (Done, w)
      else
        let (t, w1) = now e w;
            message = transcription_message text is_final who t confidence
        in case publish_data e message w1 of
             (Raised x, w2) \<Rightarrow> (Raised x, w2)
           | (Done, w2) \<Rightarrow>
               (Done, emit [Print (if is_final then FinalLine who text
                                   else InterimLine who text)] w2))"

definition transcript_filename :: "env \<Rightarrow> datetime \<Rightarrow> string" where
  "transcript_filename e d = room_name e @ ''_'' @ ymd d @ ''.json''"

definition transcript_entry :: "env \<Rightarrow> datetime \<Rightarrow> string \<Rightarrow> string \<Rightarrow> json" where
  "transcript_entry e t who text =
     JObj [(''timestamp'', JStr (isoformat t)),
           (''participant'', JStr who),
           (''text'', JStr text),
           (''room'', JStr (room_name e))]"

text \<open>
  The value bound to \<^verbatim>\<open>transcripts\<close>: the empty list when the file does not exist or
  \<^verbatim>\<open>json.load\<close> raises \<^verbatim>\<open>JSONDecodeError\<close>, what \<^verbatim>\<open>json.load\<close> returns otherwise.
\<close>

definition load_transcripts :: "file_content option \<Rightarrow> json" where
  "load_transcripts c =
     (case c of None \<Rightarrow> JArr [] | Some Unparsable \<Rightarrow> JArr [] | Some (Json v) \<Rightarrow> v)"

text \<open>\<^verbatim>\<open>transcripts.append(entry)\<close>: only a list has the method.\<close>

definition py_append :: "json \<Rightarrow> json \<Rightarrow> exn + json" where
  "py_append v entry = (case v of JArr xs \<Rightarrow> Inr (JArr (xs @ [entry])) | _ \<Rightarrow> Inl AttributeError)"

definition save_transcript :: "env \<Rightarrow> string \<Rightarrow> string \<Rightarrow> world \<Rightarrow> status \<times> world" where
  "save_transcript e text who w =
     (if strip text = [] then (Done, w)
      else
        let w0 = emit [MkDir] w;
            (d, w1) = now e w0;
            filename = transcript_filename e d;
            (t, w2) = now e w1;
            entry = transcript_entry e t who text
        in case py_append (load_transcripts (files w2 filename)) entry of
             Inl x \<Rightarrow> (Raised x, w2)
           | Inr transcripts \<Rightarrow>
               (Done, emit [WriteFile filename transcripts, Print (SavedTranscript filename)]
                        (w2\<lparr>files := (files w2)(filename \<mapsto> Json transcripts)\<rparr>)))"

section \<open>The event-draining flow\<close>

text \<open>The body of the loop of \<^verbatim>\<open>process_stt_events\<close>, for one event.\<close>

definition handle_event :: "env \<Rightarrow> participant \<Rightarrow> speech_event \<Rightarrow> world \<Rightarrow> status \<times> world" where
  "handle_event e p ev w =
     (if ev_type ev = INTERIM_TRANSCRIPT then
        (if alternatives ev \<noteq> [] \<and> length (alternatives ev) > 0 then
           (case first (alternatives ev) of
              Inl x \<Rightarrow> (Raised x, w)
            | Inr a \<Rightarrow>
                if strip (alt_text a) \<noteq> [] then
                  send_transcription e (alt_text a) False (identity p) (alt_confidence a) w
                else (Done, w))
         else (Done, w))
      else if ev_type ev = FINAL_TRANSCRIPT then
        (if alternatives ev \<noteq> [] \<and> length (alternatives ev) > 0 then
           (case first (alternatives ev) of
              Inl x \<Rightarrow> (Raised x, w)
            | Inr a \<Rightarrow>
                if strip (alt_text a) \<noteq> [] then
                  (case send_transcription e (alt_text a) True (identity p) (alt_confidence a) w of
                     (Raised x, w1) \<Rightarrow> (Raised x, w1)
                   | (Done, w1) \<Rightarrow> save_transcript e (alt_text a) (identity p) w1)
                else (Done, w))
         else (Done, w))
      else if ev_type ev = END_OF_SPEECH then
        (Done, emit [Print (EndOfSpeechDetected (identity p))] w)
      else (Done, w))"

fun process_stt_events ::
  "env \<Rightarrow> participant \<Rightarrow> speech_event stream_item list \<Rightarrow> world \<Rightarrow> status \<times> world" where
  "process_stt_events e p [] w = (Done, w)"
| "process_stt_events e p (Throw x # rest) w = (Raised x, w)"
| "process_stt_events e p (Yield ev # rest) w =
     (case handle_event e p ev w of
        (Raised x, w1) \<Rightarrow> (Raised x, w1)
      | (Done, w1) \<Rightarrow> process_stt_events e p rest w1)"

text \<open>
  \<^verbatim>\<open>push_audio_frames\<close>: every frame of the audio stream is pushed to the speech engine;
  when the stream is exhausted the input is ended.
\<close>

fun push_audio_frames :: "string \<Rightarrow> frame stream_item list \<Rightarrow> world \<Rightarrow> status \<times> world" where
  "push_audio_frames tid [] w = (Done, emit [EndInput tid] w)"
| "push_audio_frames tid (Throw x # rest) w = (Raised x, w)"
| "push_audio_frames tid (Yield f # rest) w = push_audio_frames tid rest (emit [PushFrame tid f] w)"

section \<open>The track session\<close>

text \<open>
  \<^verbatim>\<open>asyncio.gather(process_stt_events(), push_audio_frames())\<close>. The two flows run on one
  event loop; which of them is resumed next is decided by the arrival of events and frames,
  given here as a schedule (\<open>True\<close>: the event-draining flow handles its next item,
  \<open>False\<close>: the frame-forwarding flow does). A step handles one item of a stream. The
  frame-forwarding flow is \<open>Some\<close> of its remaining items until it has ended the input.
  The first exception of either flow is raised to the caller at once. When the schedule is
  used up, the event-draining flow runs to its end, then the frame-forwarding flow.
\<close>

fun gather ::
  "env \<Rightarrow> participant \<Rightarrow> string \<Rightarrow> bool list \<Rightarrow> speech_event stream_item list \<Rightarrow>
   frame stream_item list option \<Rightarrow> world \<Rightarrow> status \<times> world" where
  "gather e p tid [] evs frs w =
     (case process_stt_events e p evs w of
        (Raised x, w1) \<Rightarrow> (Raised x, w1)
      | (Done, w1) \<Rightarrow>
          (case frs of None \<Rightarrow> (Done, w1) | Some fs \<Rightarrow> push_audio_frames tid fs w1))"
| "gather e p tid (True # sched) evs frs w =
     (case evs of
        [] \<Rightarrow> gather e p tid sched [] frs w
      | Throw x # rest \<Rightarrow> (Raised x, w)
      | Yield ev # rest \<Rightarrow>
          (case handle_event e p ev w of
             (Raised x, w1) \<Rightarrow> (Raised x, w1)
           | (Done, w1) \<Rightarrow> gather e p tid sched rest frs w1))"
| "gather e p tid (False # sched) evs frs w =
     (case frs of
        None \<Rightarrow> gather e p tid sched evs None w
      | Some [] \<Rightarrow> gather e p tid sched evs None (emit [EndInput tid] w)
      | Some (Throw x # rest) \<Rightarrow> (Raised x, w)
      | Some (Yield f # rest) \<Rightarrow> gather e p tid sched evs (Some rest) (emit [PushFrame tid f] w))"

text \<open>
  What one invocation of \<^verbatim>\<open>process_audio_track\<close> meets: whether opening the speech
  stream or the audio stream raises, the items of the two streams, and the schedule.
\<close>

record session_input =
  stt_open :: "exn option"
  audio_open :: "exn option"
  stt_events :: "speech_event stream_item list"
  audio_frames :: "frame stream_item list"
  schedule :: "bool list"

definition track_id :: "participant \<Rightarrow> track \<Rightarrow> string" where
  "track_id p t = sid p @ ''_'' @ track_sid t"

text \<open>The part of \<^verbatim>\<open>process_audio_track\<close> before the \<^verbatim>\<open>try\<close>: \<open>True\<close> when the id was acquired.\<close>

definition begin_session :: "participant \<Rightarrow> track \<Rightarrow> world \<Rightarrow> bool \<times> world" where
  "begin_session p t w =
     (let tid = track_id p t
      in if tid \<in> processing_tracks w then (False, emit [Print (AlreadyProcessing tid)] w)
         else (True, emit [Print (StartingTranscription (identity p) tid)]
                       (w\<lparr>processing_tracks := insert tid (processing_tracks w)\<rparr>)))"

text \<open>The body of the \<^verbatim>\<open>try\<close>.\<close>

definition session_body ::
  "env \<Rightarrow> participant \<Rightarrow> string \<Rightarrow> session_input \<Rightarrow> world \<Rightarrow> status \<times> world" where
  "session_body e p tid inp w =
     (case stt_open inp of
        Some x \<Rightarrow> (Raised x, w)
      | None \<Rightarrow>
          (case audio_open inp of
             Some x \<Rightarrow> (Raised x, w)
           | None \<Rightarrow> gather e p tid (schedule inp) (stt_events inp) (Some (audio_frames inp)) w))"

text \<open>The \<^verbatim>\<open>finally\<close> block.\<close>

definition end_session :: "string \<Rightarrow> world \<Rightarrow> world" where
  "end_session tid w =
     emit [Print (StoppedProcessing tid)] (w\<lparr>processing_tracks := processing_tracks w - {tid}\<rparr>)"

definition process_audio_track ::
  "env \<Rightarrow> participant \<Rightarrow> track \<Rightarrow> session_input \<Rightarrow> world \<Rightarrow> status \<times> world" where
  "process_audio_track e p t inp w =
     (case begin_session p t w of
        (False, w1) \<Rightarrow> (Done, w1)
      | (True, w1) \<Rightarrow>
          (case session_body e p (track_id p t) inp w1 of
             (Done, w2) \<Rightarrow> (Done, end_session (track_id p t) w2)
           | (Raised x, w2) \<Rightarrow>
               if is_Exception x then
                 (Done, end_session (track_id p t)
                          (emit [Print (ErrorProcessing (identity p) x)] w2))
               else (Raised x, end_session (track_id p t) w2)))"

section \<open>The heartbeat\<close>

definition status_message :: "nat \<Rightarrow> datetime \<Rightarrow> (string \<times> json) list" where
  "status_message n t =
     [(''type'', JStr ''agent_status''),
      (''status'', JStr ''active''),
      (''processing_tracks'', JInt (int n)),
      (''timestamp'', JStr (isoformat t))]"

text \<open>
  \<^verbatim>\<open>send_status_updates\<close> is \<^verbatim>\<open>while True\<close>: it never returns, it is still running or it
  has died of an exception. While it sleeps the other coroutines run and change the
  registry: the list gives, for each sleep that ends while the process lives, the registry
  as they leave it during that sleep. The registry is taken not to change while
  \<^verbatim>\<open>publish_data\<close> is awaited.
\<close>

datatype loop_status = StillRunning | Died exn

fun send_status_updates :: "env \<Rightarrow> string set list \<Rightarrow> world \<Rightarrow> loop_status \<times> world" where
  "send_status_updates e [] w = (StillRunning, w)"
| "send_status_updates e (reg # rest) w =
     (let w0 = (emit [Sleep 30] w)\<lparr>processing_tracks := reg\<rparr>;
          n = card (processing_tracks w0);
          (t, w1) = now e w0
      in case publish_data e (status_message n t) w1 of
           (Raised x, w2) \<Rightarrow> (Died x, w2)
         | (Done, w2) \<Rightarrow>
             send_status_updates e rest
               (emit [Print (StatusUpdateSent (card (processing_tracks w2)))] w2))"

section \<open>Track notifications\<close>





section \<open>Sessions sharing the event loop\<close>

text \<open>
  Between two \<^verbatim>\<open>await\<close>s a coroutine is not interrupted. \<^verbatim>\<open>send_transcription\<close> is a
  coroutine that awaits \<^verbatim>\<open>publish_data\<close>; \<^verbatim>\<open>save_transcript\<close> is an ordinary function
  without any \<^verbatim>\<open>await\<close>, so its read, append and write are one step of the loop.
\<close>

datatype step =
    SendStep string bool string "real option"
  | SaveStep string string

fun exec_step :: "env \<Rightarrow> step \<Rightarrow> world \<Rightarrow> status \<times> world" where
  "exec_step e (SendStep text is_final who c) w = send_transcription e text is_final who c w"
| "exec_step e (SaveStep text who) w = save_transcript e text who w"

text \<open>The steps a session takes for a final transcript with a non-blank text.\<close>

definition final_steps :: "participant \<Rightarrow> alternative \<Rightarrow> step list" where
  "final_steps p a =
     [SendStep (alt_text a) True (identity p) (alt_confidence a),
      SaveStep (alt_text a) (identity p)]"

fun run_steps :: "env \<Rightarrow> step list \<Rightarrow> world \<Rightarrow> status \<times> world" where
  "run_steps e [] w = (Done, w)"
| "run_steps e (s # rest) w =
     (case exec_step e s w of
        (Raised x, w1) \<Rightarrow> (Raised x, w1)
      | (Done, w1) \<Rightarrow> run_steps e rest w1)"

text \<open>
  The loop resumes the sessions in any order: the schedule names, step by step, the session
  that takes its next step. A session whose step raises has ended.
\<close>

fun run_schedule :: "env \<Rightarrow> nat list \<Rightarrow> step list list \<Rightarrow> world \<Rightarrow> step list list \<times> world" where
  "run_schedule e [] tasks w = (tasks, w)"
| "run_schedule e (i # sched) tasks w =
     (if i < length tasks then
        (case tasks ! i of
           [] \<Rightarrow> run_schedule e sched tasks w
         | s # rest \<Rightarrow>
             (case exec_step e s w of
                (Done, w1) \<Rightarrow> run_schedule e sched (tasks[i := rest]) w1
              | (Raised x, w1) \<Rightarrow> run_schedule e sched (tasks[i := []]) w1))
      else run_schedule e sched tasks w)"

section \<open>Reading the trace and the files\<close>

fun published :: "effect list \<Rightarrow> (string \<times> json) list list" where
  "published [] = []"
| "published (Publish m # es) = m # published es"
| "published (x # es) = published es"


text \<open>The records a file holds, read as \<^verbatim>\<open>save_transcript\<close> reads them.\<close>

definition records_of :: "file_content option \<Rightarrow> json list" where
  "records_of c = (case load_transcripts c of JArr xs \<Rightarrow> xs | _ \<Rightarrow> [])"

text \<open>A file to which a record can be appended: absent, unparsable, or holding a JSON array.\<close>

definition appendable :: "file_content option \<Rightarrow> bool" where
  "appendable c = (case load_transcripts c of JArr xs \<Rightarrow> True | _ \<Rightarrow> False)"

fun is_save :: "step \<Rightarrow> bool" where
  "is_save (SaveStep text who) = True"
| "is_save _ = False"

fun step_text :: "step \<Rightarrow> string" where
  "step_text (SendStep text is_final who c) = text"
| "step_text (SaveStep text who) = text"

definition pending_saves :: "step list list \<Rightarrow> nat" where
  "pending_saves tasks = sum_list (map (\<lambda>t. length (filter is_save t)) tasks)"


text \<open>Every step of every session carries a text that is not blank.\<close>

definition nonblank_tasks :: "step list list \<Rightarrow> bool" where
  "nonblank_tasks tasks \<longleftrightarrow> (\<forall>t \<in> set tasks. \<forall>s \<in> set t. strip (step_text s) \<noteq> [])"

text \<open>The trace of \<open>n\<close> heartbeats, the first reading the clock for the \<open>c\<close>-th time.\<close>

fun heartbeat_trace :: "env \<Rightarrow> nat \<Rightarrow> string set list \<Rightarrow> effect list" where
  "heartbeat_trace e c [] = []"
| "heartbeat_trace e c (reg # rest) =
     [Sleep 30, Publish (status_message (card reg) (clock e c)), Print (StatusUpdateSent (card reg))]
     @ heartbeat_trace e (Suc c) rest"

section \<open>Example inputs\<close>

definition env0 :: env where
  "env0 = \<lparr>room_name = ''standup'',
           clock = (\<lambda>k. \<lparr>ymd = ''2025-01-02'', isoformat = ''2025-01-02T10:00:00''\<rparr>),
           publish_ok = (\<lambda>k. True)\<rparr>"

definition world0 :: world where
  "world0 = \<lparr>processing_tracks = {}, files = Map.empty, trace = [],
             now_calls = 0, publish_calls = 0\<rparr>"

definition alice :: participant where
  "alice = \<lparr>sid = ''PA_1'', identity = ''alice''\<rparr>"

definition bob :: participant where
  "bob = \<lparr>sid = ''PA_2'', identity = ''bob''\<rparr>"

definition mic :: track where
  "mic = \<lparr>track_sid = ''TR_1'', kind = KIND_AUDIO\<rparr>"

definition hello :: alternative where
  "hello = \<lparr>alt_text = ''hello world'', alt_confidence = Some (9 / 10)\<rparr>"

definition hello_plain :: alternative where
  "hello_plain = \<lparr>alt_text = ''hello world'', alt_confidence = None\<rparr>"

definition blank :: alternative where
  "blank = \<lparr>alt_text = ''  '', alt_confidence = Some (1 / 2)\<rparr>"

definition final_hello :: speech_event where
  "final_hello = \<lparr>ev_type = FINAL_TRANSCRIPT, alternatives = [hello, blank]\<rparr>"

definition interim_plain :: speech_event where
  "interim_plain = \<lparr>ev_type = INTERIM_TRANSCRIPT, alternatives = [hello_plain]\<rparr>"

definition earlier_record :: json where
  "earlier_record =
     JObj [(''timestamp'', JStr ''2025-01-02T09:00:00''), (''participant'', JStr ''bob''),
           (''text'', JStr ''good morning''), (''room'', JStr ''standup'')]"

definition world1 :: world where
  "world1 = world0\<lparr>files := [''standup_2025-01-02.json'' \<mapsto> Json (JArr [earlier_record])]\<rparr>"

definition failing_input :: session_input where
  "failing_input =
     \<lparr>stt_open = None, audio_open = None,
      stt_events = [Yield interim_plain, Throw SttError],
      audio_frames = [Yield 1, Yield 2],
      schedule = [False, True, False]\<rparr>"

definition flaky_env :: env where
  "flaky_env = env0\<lparr>publish_ok := (\<lambda>k. k \<noteq> Suc 0)\<rparr>"

definition first_fails_env :: env where
  "first_fails_env = env0\<lparr>publish_ok := (\<lambda>k. k \<noteq> 0)\<rparr>"




definition two_sessions :: "(participant \<times> alternative) list" where
  "two_sessions = [(alice, hello), (bob, hello_plain)]"

section \<open>Properties\<close>

lemma strip_empty_iff: "strip s = [] \<longleftrightarrow> (\<forall>c \<in> set s. is_space c)"
proof
  assume "strip s = []"
  then have "dropWhile is_space (rev (dropWhile is_space s)) = []"
    by (simp add: strip_def)
  then have "\<forall>c \<in> set (dropWhile is_space s). is_space c"
    by simp
  moreover have "\<forall>c \<in> set (takeWhile is_space s). is_space c"
    by (auto dest: set_takeWhileD)
  moreover have "set s = set (takeWhile is_space s) \<union> set (dropWhile is_space s)"
    by (metis set_append takeWhile_dropWhile_id)
  ultimately show "\<forall>c \<in> set s. is_space c"
    by blast
next
  assume "\<forall>c \<in> set s. is_space c"
  then show "strip s = []"
    by (auto simp: strip_def dest: set_dropWhileD)
qed


subsection \<open>Sending and saving, step by step\<close>

lemma published_append: "published (xs @ ys) = published xs @ published ys"
  by (induction xs rule: published.induct) auto


lemma send_transcription_ok:
  assumes "strip text \<noteq> []" and "publish_ok e (publish_calls w)"
  shows "send_transcription e text is_final who c w =
           (Done, w\<lparr>trace := trace w @
                       [Publish (transcription_message text is_final who (clock e (now_calls w)) c),
                        Print (if is_final then FinalLine who text else InterimLine who text)],
                     now_calls := Suc (now_calls w),
                     publish_calls := Suc (publish_calls w)\<rparr>)"
  using assms by (simp add: send_transcription_def now_def publish_data_def emit_def Let_def)

lemma send_transcription_fails:
  assumes "strip text \<noteq> []" and "\<not> publish_ok e (publish_calls w)"
  shows "send_transcription e text is_final who c w =
           (Raised PublishError, w\<lparr>now_calls := Suc (now_calls w),
                                    publish_calls := Suc (publish_calls w)\<rparr>)"
  using assms by (simp add: send_transcription_def now_def publish_data_def emit_def Let_def)

lemma appendable_cases:
  "appendable c \<longleftrightarrow> c = None \<or> c = Some Unparsable \<or> (\<exists>xs. c = Some (Json (JArr xs)))"
  by (auto simp: appendable_def load_transcripts_def
      split: option.splits file_content.splits json.splits)

lemma py_append_records:
  "appendable c \<Longrightarrow> py_append (load_transcripts c) entry = Inr (JArr (records_of c @ [entry]))"
  by (auto simp: appendable_def records_of_def py_append_def split: json.splits)

lemma save_transcript_ok:
  assumes "strip text \<noteq> []"
    and "appendable (files w (transcript_filename e (clock e (now_calls w))))"
  shows "save_transcript e text who w =
           (let fn = transcript_filename e (clock e (now_calls w));
                recs = JArr (records_of (files w fn) @
                         [transcript_entry e (clock e (Suc (now_calls w))) who text])
            in (Done, w\<lparr>files := (files w)(fn \<mapsto> Json recs),
                         trace := trace w @ [MkDir, WriteFile fn recs, Print (SavedTranscript fn)],
                         now_calls := Suc (Suc (now_calls w))\<rparr>))"
  using assms
  by (simp add: save_transcript_def now_def emit_def Let_def py_append_records)

lemma handle_final:
  assumes "ev_type ev = FINAL_TRANSCRIPT" and "alternatives ev = a # rest"
    and "strip (alt_text a) \<noteq> []"
  shows "handle_event e p ev w =
           (case send_transcription e (alt_text a) True (identity p) (alt_confidence a) w of
              (Raised x, w1) \<Rightarrow> (Raised x, w1)
            | (Done, w1) \<Rightarrow> save_transcript e (alt_text a) (identity p) w1)"
  using assms by (simp add: handle_event_def first_def)

lemma final_send_failure_skips_save:
  assumes "ev_type ev = FINAL_TRANSCRIPT" and "alternatives ev = a # rest"
    and "strip (alt_text a) \<noteq> []"
    and "\<not> publish_ok e (publish_calls w)"
  shows "handle_event e p ev w =
           (Raised PublishError, w\<lparr>now_calls := Suc (now_calls w),
                                    publish_calls := Suc (publish_calls w)\<rparr>)"
  using assms by (simp add: handle_final send_transcription_fails)

lemma handle_interim:
  assumes "ev_type ev = INTERIM_TRANSCRIPT" and "alternatives ev = a # rest"
    and "strip (alt_text a) \<noteq> []"
  shows "handle_event e p ev w =
           send_transcription e (alt_text a) False (identity p) (alt_confidence a) w"
  using assms by (simp add: handle_event_def first_def)

subsection \<open>Final transcripts\<close>



subsection \<open>Blank text\<close>

text \<open>
  Claim C4. A text that is empty or made of whitespace only is never sent and never saved:
  \<^verbatim>\<open>send_transcription\<close> and \<^verbatim>\<open>save_transcript\<close> return at once, and an interim or final
  event whose first alternative has such a text leaves the state, trace included, as it was.
\<close>

theorem blank_text_dropped:
  assumes "\<forall>c \<in> set text. is_space c"
  shows "send_transcription e text is_final who c w = (Done, w) \<and>
         save_transcript e text who w = (Done, w) \<and>
         handle_event e p \<lparr>ev_type = INTERIM_TRANSCRIPT,
                            alternatives = \<lparr>alt_text = text, alt_confidence = c\<rparr> # rest\<rparr> w
           = (Done, w) \<and>
         handle_event e p \<lparr>ev_type = FINAL_TRANSCRIPT,
                            alternatives = \<lparr>alt_text = text, alt_confidence = c\<rparr> # rest\<rparr> w
           = (Done, w)"
  using assms
  by (simp add: send_transcription_def save_transcript_def handle_event_def first_def
      strip_empty_iff)

theorem blank_text_dropped_witness:
  "send_transcription env0 ''  '' True ''alice'' None world1 = (Done, world1) \<and>
   save_transcript env0 ''  '' ''alice'' world1 = (Done, world1) \<and>
   handle_event env0 alice \<lparr>ev_type = FINAL_TRANSCRIPT,
       alternatives = [\<lparr>alt_text = ''  '', alt_confidence = None\<rparr>, hello]\<rparr> world1
     = (Done, world1)"
  using blank_text_dropped [of "''  ''" env0 True "''alice''" None world1 alice "[hello]"]
  by (simp add: is_space_def)

subsection \<open>Appending to the transcript file\<close>



subsection \<open>Alternatives\<close>

text \<open>
  Claim C9. An interim or final event without alternatives publishes nothing and saves
  nothing: the state is unchanged. The first alternative is read behind the test that the
  list is not empty, so handling an event never raises \<^verbatim>\<open>IndexError\<close>.
\<close>

theorem no_alternatives_no_output:
  "handle_event e p \<lparr>ev_type = INTERIM_TRANSCRIPT, alternatives = []\<rparr> w = (Done, w) \<and>
   handle_event e p \<lparr>ev_type = FINAL_TRANSCRIPT, alternatives = []\<rparr> w = (Done, w) \<and>
   fst (handle_event e p ev w) \<noteq> Raised IndexError"
  by (auto simp: handle_event_def first_def send_transcription_def publish_data_def
      save_transcript_def now_def Let_def py_append_def
      split: list.splits prod.splits status.splits sum.splits json.splits if_splits)

text \<open>
  Claim C10. Of the alternatives of an event only the first is used: with the same first
  alternative and any other alternatives after it, the event is handled in the same way,
  with the same status and the same state and trace.
\<close>

theorem only_first_alternative_used:
  "handle_event e p (ev\<lparr>alternatives := a # rest\<rparr>) w =
   handle_event e p (ev\<lparr>alternatives := a # others\<rparr>) w"
  by (simp add: handle_event_def first_def)

subsection \<open>Confidence\<close>

lemma save_transcript_published:
  "published (trace (snd (save_transcript e text who w))) = published (trace w)"
  by (simp add: save_transcript_def now_def emit_def Let_def published_append
      split: sum.splits)

text \<open>
  Claim C7. The message published for an interim or final event has the entry
  \<open>confidence\<close>: the score of the first alternative, unchanged, when the alternative
  has one, and the null value when it has none. The entry is never left out.
\<close>

theorem confidence_in_message:
  assumes "ev_type ev = INTERIM_TRANSCRIPT \<or> ev_type ev = FINAL_TRANSCRIPT"
    and "alternatives ev = a # rest"
    and "strip (alt_text a) \<noteq> []"
    and "publish_ok e (publish_calls w)"
  shows "let msg = transcription_message (alt_text a) (ev_type ev = FINAL_TRANSCRIPT)
                     (identity p) (clock e (now_calls w)) (alt_confidence a)
         in published (trace (snd (handle_event e p ev w))) = published (trace w) @ [msg] \<and>
            map_of msg ''confidence'' =
              Some (case alt_confidence a of None \<Rightarrow> JNull | Some c \<Rightarrow> JFloat c)"
  using assms
  by (auto simp: handle_final handle_interim send_transcription_ok save_transcript_published
      published_append Let_def transcription_message_def json_of_confidence_def)

theorem confidence_in_message_witness:
  "published (trace (snd (handle_event env0 alice final_hello world0))) =
     [transcription_message ''hello world'' True ''alice'' (clock env0 0) (Some (9 / 10))] \<and>
   map_of (transcription_message ''hello world'' True ''alice'' (clock env0 0) (Some (9 / 10)))
     ''confidence'' = Some (JFloat (9 / 10))"
  using confidence_in_message [of final_hello hello "[blank]" env0 world0 alice]
  by (simp add: final_hello_def hello_def alice_def env0_def world0_def strip_def is_space_def
      Let_def)

text \<open>
  An interim event whose alternative has no score: the published dictionary has the key
  \<open>confidence\<close>, bound to null.
\<close>

theorem confidence_absent_counterexample:
  "published (trace (snd (handle_event env0 alice interim_plain world0))) =
     [transcription_message ''hello world'' False ''alice'' (clock env0 0) None] \<and>
   map_of (transcription_message ''hello world'' False ''alice'' (clock env0 0) None)
     ''confidence'' = Some JNull"
  by (simp add: handle_event_def first_def interim_plain_def hello_plain_def alice_def env0_def
      world0_def strip_def is_space_def send_transcription_def now_def publish_data_def emit_def
      Let_def transcription_message_def json_of_confidence_def)

subsection \<open>The registry around a session\<close>

lemma send_transcription_registry:
  "processing_tracks (snd (send_transcription e text f who c w)) = processing_tracks w"
  by (simp add: send_transcription_def now_def publish_data_def emit_def Let_def)

lemma save_transcript_registry:
  "processing_tracks (snd (save_transcript e text who w)) = processing_tracks w"
  by (simp add: save_transcript_def now_def emit_def Let_def split: sum.splits)

lemma handle_event_registry:
  "processing_tracks (snd (handle_event e p ev w)) = processing_tracks w"
proof -
  have "processing_tracks (snd (case send_transcription e s True who c w of
            (Raised x, w1) \<Rightarrow> (Raised x, w1)
          | (Done, w1) \<Rightarrow> save_transcript e s who w1)) = processing_tracks w"
    for s who c
    using send_transcription_registry [of e s True who c w]
    by (cases "send_transcription e s True who c w")
       (auto simp: save_transcript_registry split: status.splits)
  then show ?thesis
    by (auto simp: handle_event_def send_transcription_registry emit_def split: sum.splits)
qed

lemma process_stt_events_registry:
  "processing_tracks (snd (process_stt_events e p evs w)) = processing_tracks w"
proof (induction e p evs w rule: process_stt_events.induct)
  case (3 e p ev rest w)
  then show ?case
    using handle_event_registry [of e p ev w]
    by (cases "handle_event e p ev w") (auto split: status.splits)
qed simp_all

lemma push_audio_frames_registry:
  "processing_tracks (snd (push_audio_frames tid fs w)) = processing_tracks w"
  by (induction tid fs w rule: push_audio_frames.induct) (simp_all add: emit_def)

lemma gather_registry:
  "processing_tracks (snd (gather e p tid sched evs frs w)) = processing_tracks w"
proof (induction e p tid sched evs frs w rule: gather.induct)
  case (1 e p tid evs frs w)
  then show ?case
    using process_stt_events_registry [of e p evs w]
    by (cases "process_stt_events e p evs w")
       (auto simp: push_audio_frames_registry split: status.splits option.splits)
next
  case (2 e p tid sched evs frs w)
  show ?case
  proof (cases evs)
    case Nil
    with 2 show ?thesis by simp
  next
    case (Cons item rest)
    show ?thesis
    proof (cases item)
      case (Yield ev)
      with 2 Cons show ?thesis
        using handle_event_registry [of e p ev w]
        by (cases "handle_event e p ev w") (auto split: status.splits)
    next
      case (Throw x)
      with Cons show ?thesis by simp
    qed
  qed
next
  case (3 e p tid sched evs frs w)
  then show ?case
    by (auto simp: emit_def split: option.splits list.splits stream_item.splits)
qed

lemma session_body_registry:
  "processing_tracks (snd (session_body e p tid inp w)) = processing_tracks w"
  by (simp add: session_body_def gather_registry split: option.splits)

text \<open>
  Claim C1. An invocation of \<^verbatim>\<open>process_audio_track\<close> that acquires the track id releases
  it when it ends: whatever the two streams yield or raise, whether opening them raises, and
  in whatever order the two flows are resumed, the registry afterwards does not contain the
  id and is what it was before the invocation.
\<close>

theorem track_released_at_end:
  assumes "track_id p t \<notin> processing_tracks w"
  shows "track_id p t \<notin> processing_tracks (snd (process_audio_track e p t inp w)) \<and>
         processing_tracks (snd (process_audio_track e p t inp w)) = processing_tracks w"
proof -
  let ?w1 = "emit [Print (StartingTranscription (identity p) (track_id p t))]
               (w\<lparr>processing_tracks := insert (track_id p t) (processing_tracks w)\<rparr>)"
  obtain st w2 where body: "session_body e p (track_id p t) inp ?w1 = (st, w2)"
    by (cases "session_body e p (track_id p t) inp ?w1")
  have "processing_tracks w2 = insert (track_id p t) (processing_tracks w)"
    using session_body_registry [of e p "track_id p t" inp ?w1] body
    by (simp add: emit_def)
  with assms body show ?thesis
    by (auto simp: process_audio_track_def begin_session_def end_session_def emit_def Let_def
        split: status.splits)
qed

theorem track_released_at_end_witness:
  "track_id alice mic \<notin>
     processing_tracks (snd (process_audio_track env0 alice mic failing_input world0)) \<and>
   Print (ErrorProcessing ''alice'' SttError) \<in>
     set (trace (snd (process_audio_track env0 alice mic failing_input world0)))"
proof -
  have "Print (ErrorProcessing ''alice'' SttError) \<in>
     set (trace (snd (process_audio_track env0 alice mic failing_input world0)))"
    by code_simp
  then show ?thesis
    using track_released_at_end [of alice mic world0 env0 failing_input]
    by (simp add: world0_def)
qed

subsection \<open>The heartbeat\<close>

lemma heartbeat_tick_ok:
  assumes "publish_ok e (publish_calls w)"
  shows "\<exists>w1. send_status_updates e (reg # rest) w = send_status_updates e rest w1 \<and>
              trace w1 = trace w @ heartbeat_trace e (now_calls w) [reg] \<and>
              now_calls w1 = Suc (now_calls w) \<and>
              publish_calls w1 = Suc (publish_calls w)"
proof -
  from assms have "send_status_updates e (reg # rest) w =
      send_status_updates e rest
        (w\<lparr>processing_tracks := reg, now_calls := Suc (now_calls w),
           publish_calls := Suc (publish_calls w),
           trace := trace w @ heartbeat_trace e (now_calls w) [reg]\<rparr>)"
    by (simp add: now_def publish_data_def emit_def Let_def)
  then show ?thesis
    by (intro exI [of _ "w\<lparr>processing_tracks := reg, now_calls := Suc (now_calls w),
           publish_calls := Suc (publish_calls w),
           trace := trace w @ heartbeat_trace e (now_calls w) [reg]\<rparr>"]) simp
qed

lemma heartbeat_tick_fails:
  assumes "\<not> publish_ok e (publish_calls w)"
  shows "fst (send_status_updates e (reg # rest) w) = Died PublishError \<and>
         trace (snd (send_status_updates e (reg # rest) w)) = trace w @ [Sleep 30]"
  using assms by (simp add: now_def publish_data_def emit_def Let_def)

text \<open>
  Claim C6. The emitter sleeps 30 time units before every tick; a tick reads the size of the
  registry as it is then and publishes it. This goes on as long as every send has returned
  (\<open>j\<close> is the number of the ticks whose send returns). The first send that raises is caught
  by nothing: the exception leaves the \<^verbatim>\<open>while True\<close> loop, nothing is printed, and no later
  tick fires.
\<close>

theorem heartbeat_until_send_fails:
  assumes "j \<le> length regs"
    and "\<forall>k < j. publish_ok e (publish_calls w + k)"
    and "j < length regs \<longrightarrow> \<not> publish_ok e (publish_calls w + j)"
  shows "fst (send_status_updates e regs w) =
           (if j < length regs then Died PublishError else StillRunning) \<and>
         trace (snd (send_status_updates e regs w)) =
           trace w @ heartbeat_trace e (now_calls w) (take j regs) @
           (if j < length regs then [Sleep 30] else [])"
  using assms
proof (induction regs arbitrary: w j)
  case Nil
  then show ?case by simp
next
  case (Cons reg rest)
  show ?case
  proof (cases j)
    case 0
    with Cons.prems have "\<not> publish_ok e (publish_calls w)" by simp
    from heartbeat_tick_fails [OF this, of reg rest] 0 show ?thesis by simp
  next
    case (Suc i)
    from Cons.prems Suc have ok: "publish_ok e (publish_calls w)"
      by (metis add.right_neutral zero_less_Suc)
    from heartbeat_tick_ok [OF ok, of reg rest] obtain w1 where
      run: "send_status_updates e (reg # rest) w = send_status_updates e rest w1" and
      tr: "trace w1 = trace w @ heartbeat_trace e (now_calls w) [reg]" and
      nc: "now_calls w1 = Suc (now_calls w)" and
      pc: "publish_calls w1 = Suc (publish_calls w)"
      by blast
    have a: "i \<le> length rest" using Cons.prems Suc by simp
    have b: "\<forall>k < i. publish_ok e (publish_calls w1 + k)"
    proof (intro allI impI)
      fix k assume "k < i"
      then have "Suc k < j" using Suc by simp
      with Cons.prems have "publish_ok e (publish_calls w + Suc k)" by blast
      then show "publish_ok e (publish_calls w1 + k)" by (simp add: pc)
    qed
    have c: "i < length rest \<longrightarrow> \<not> publish_ok e (publish_calls w1 + i)"
      using Cons.prems Suc by (simp add: pc)
    from Cons.IH [OF a b c] Suc show ?thesis
      by (simp add: run tr nc del: send_status_updates.simps)
  qed
qed

theorem heartbeat_until_send_fails_witness:
  "fst (send_status_updates flaky_env [{''PA_1_TR_1''}, {''PA_1_TR_1'', ''PA_2_TR_1''}, {}] world0)
     = Died PublishError \<and>
   trace (snd (send_status_updates flaky_env
                 [{''PA_1_TR_1''}, {''PA_1_TR_1'', ''PA_2_TR_1''}, {}] world0))
     = [Sleep 30, Publish (status_message 1 (clock flaky_env 0)), Print (StatusUpdateSent 1),
        Sleep 30]"
  using heartbeat_until_send_fails [of "Suc 0" "[{''PA_1_TR_1''}, {''PA_1_TR_1'', ''PA_2_TR_1''}, {}]"
      flaky_env world0]
  by (simp add: flaky_env_def env0_def world0_def)

text \<open>
  Three ticks, of which only the first send raises: no heartbeat at all is published,
  although the room would have accepted the second and the third.
\<close>

theorem heartbeat_survives_failure_counterexample:
  "fst (send_status_updates first_fails_env [{''PA_1_TR_1''}, {''PA_1_TR_1''}, {''PA_1_TR_1''}]
          world0) = Died PublishError \<and>
   published (trace (snd (send_status_updates first_fails_env
          [{''PA_1_TR_1''}, {''PA_1_TR_1''}, {''PA_1_TR_1''}] world0))) = [] \<and>
   publish_ok first_fails_env 1 \<and> publish_ok first_fails_env 2"
  by (simp add: first_fails_env_def env0_def world0_def now_def publish_data_def emit_def Let_def)

subsection \<open>One session per track\<close>







subsection \<open>Sessions appending to one file\<close>

lemma records_of_written:
  "records_of (Some (Json (JArr xs))) = xs" "appendable (Some (Json (JArr xs)))"
  by (simp_all add: records_of_def appendable_def load_transcripts_def)

lemma exec_step_file:
  assumes "\<forall>k. publish_ok e k" and "\<forall>k. transcript_filename e (clock e k) = fn"
    and "strip (step_text s) \<noteq> []" and "appendable (files w fn)"
  shows "\<exists>w1 new. exec_step e s w = (Done, w1) \<and> appendable (files w1 fn) \<and>
           records_of (files w1 fn) = records_of (files w fn) @ new \<and>
           length new = (if is_save s then 1 else 0)"
proof (cases s)
  case (SendStep tx is_final who c)
  with assms show ?thesis
    by (simp add: send_transcription_ok)
next
  case (SaveStep tx who)
  with assms show ?thesis
    by (simp add: save_transcript_ok Let_def records_of_written)
qed

lemma pending_saves_update:
  assumes "i < length tasks" and "tasks ! i = s # rest"
  shows "pending_saves tasks = (if is_save s then 1 else 0) + pending_saves (tasks[i := rest])"
proof -
  have "tasks = take i tasks @ (s # rest) # drop (Suc i) tasks"
    using assms by (metis id_take_nth_drop)
  moreover have "tasks[i := rest] = take i tasks @ rest # drop (Suc i) tasks"
    using assms by (simp add: upd_conv_take_nth_drop)
  ultimately have "pending_saves tasks =
      pending_saves (take i tasks) + length (filter is_save (s # rest)) +
        pending_saves (drop (Suc i) tasks)"
    and "pending_saves (tasks[i := rest]) =
      pending_saves (take i tasks) + length (filter is_save rest) +
        pending_saves (drop (Suc i) tasks)"
    by (metis (no_types, lifting) pending_saves_def map_append list.simps(9) sum_list.append
        sum_list.Cons add.assoc)+
  then show ?thesis by simp
qed

lemma nonblank_tasks_update:
  assumes "nonblank_tasks tasks" and "i < length tasks" and "tasks ! i = s # rest"
  shows "nonblank_tasks (tasks[i := rest])" and "strip (step_text s) \<noteq> []"
proof -
  have mem: "s # rest \<in> set tasks" using assms by (metis nth_mem)
  with assms(1) show "strip (step_text s) \<noteq> []"
    by (auto simp: nonblank_tasks_def)
  show "nonblank_tasks (tasks[i := rest])"
    unfolding nonblank_tasks_def
  proof (intro ballI)
    fix t x assume "t \<in> set (tasks[i := rest])" and "x \<in> set t"
    then have "t \<in> set tasks \<or> t = rest"
      by (meson insertE set_update_subset_insert subsetD)
    with mem assms(1) \<open>x \<in> set t\<close> show "strip (step_text x) \<noteq> []"
      by (auto simp: nonblank_tasks_def)
  qed
qed

lemma run_schedule_file:
  assumes "\<forall>k. publish_ok e k" and "\<forall>k. transcript_filename e (clock e k) = fn"
  shows "nonblank_tasks tasks \<Longrightarrow> appendable (files w fn) \<Longrightarrow>
         \<exists>new. records_of (files (snd (run_schedule e sched tasks w)) fn) =
                  records_of (files w fn) @ new \<and>
               length new + pending_saves (fst (run_schedule e sched tasks w)) =
                  pending_saves tasks"
proof (induction sched arbitrary: tasks w)
  case Nil
  then show ?case by simp
next
  case turn: (Cons i sched)
  show ?case
  proof (cases "i < length tasks")
    case False
    with turn show ?thesis by simp
  next
    case True
    show ?thesis
    proof (cases "tasks ! i")
      case Nil
      with True turn show ?thesis by simp
    next
      case (Cons s rest)
      from nonblank_tasks_update [OF turn.prems(1) True Cons]
      have nb: "nonblank_tasks (tasks[i := rest])" and nbs: "strip (step_text s) \<noteq> []"
        by simp_all
      from exec_step_file [OF assms nbs turn.prems(2)] obtain w1 new1 where
        ex: "exec_step e s w = (Done, w1)" and app: "appendable (files w1 fn)" and
        recs: "records_of (files w1 fn) = records_of (files w fn) @ new1" and
        len: "length new1 = (if is_save s then 1 else 0)"
        by blast
      from turn.IH [OF nb app] obtain new2 where
        r2: "records_of (files (snd (run_schedule e sched (tasks[i := rest]) w1)) fn) =
               records_of (files w1 fn) @ new2" and
        l2: "length new2 + pending_saves (fst (run_schedule e sched (tasks[i := rest]) w1)) =
               pending_saves (tasks[i := rest])"
        by blast
      have next_turn:
        "run_schedule e (i # sched) tasks w = run_schedule e sched (tasks[i := rest]) w1"
        using True Cons ex by simp
      have "records_of (files (snd (run_schedule e sched (tasks[i := rest]) w1)) fn) =
              records_of (files w fn) @ (new1 @ new2)"
        using r2 recs by simp
      moreover have "length (new1 @ new2) +
              pending_saves (fst (run_schedule e sched (tasks[i := rest]) w1)) =
              pending_saves tasks"
        using l2 len pending_saves_update [OF True Cons] by simp
      ultimately show ?thesis
        unfolding next_turn by blast
    qed
  qed
qed

lemma pending_saves_final_steps:
  "pending_saves (map (\<lambda>(p, a). final_steps p a) sessions) = length sessions"
  by (induction sessions) (auto simp: pending_saves_def final_steps_def)

lemma pending_saves_done: "pending_saves (replicate n []) = 0"
  by (induction n) (auto simp: pending_saves_def)

lemma final_steps_handle_event:
  assumes "ev_type ev = FINAL_TRANSCRIPT" and "alternatives ev = a # rest"
    and "strip (alt_text a) \<noteq> []"
  shows "run_steps e (final_steps p a) w = handle_event e p ev w"
  using assms
  by (cases "send_transcription e (alt_text a) True (identity p) (alt_confidence a) w";
      cases "save_transcript e (alt_text a) (identity p)
               (snd (send_transcription e (alt_text a) True (identity p) (alt_confidence a) w))")
     (auto simp: handle_final final_steps_def split: status.splits)

text \<open>
  Claim C8. \<open>N\<close> sessions on the event loop, each handling one final transcript with a text
  that is not blank, all for the same file of room and day: in whatever order the loop
  resumes them, once all of them have finished the file holds what it held before, followed
  by exactly \<open>N\<close> new records. The read, the append and the write of \<^verbatim>\<open>save_transcript\<close> are one
  step of the loop, so no session reads the file between the read and the write of another.
\<close>

theorem concurrent_appends_all_kept:
  assumes "\<forall>k. publish_ok e k"
    and "\<forall>k. transcript_filename e (clock e k) = fn"
    and "\<forall>s \<in> set sessions. strip (alt_text (snd s)) \<noteq> []"
    and "appendable (files w fn)"
    and "fst (run_schedule e sched (map (\<lambda>(p, a). final_steps p a) sessions) w) =
           replicate (length sessions) []"
  shows "\<exists>new. records_of (files (snd (run_schedule e sched
                    (map (\<lambda>(p, a). final_steps p a) sessions) w)) fn) =
                  records_of (files w fn) @ new \<and>
               length new = length sessions"
proof -
  have "nonblank_tasks (map (\<lambda>(p, a). final_steps p a) sessions)"
    using assms(3) by (auto simp: nonblank_tasks_def final_steps_def)
  from run_schedule_file [OF assms(1,2) this assms(4), of sched] assms(5)
  show ?thesis
    by (simp add: pending_saves_final_steps pending_saves_done)
qed

theorem concurrent_appends_all_kept_witness:
  "(\<exists>new. records_of (files (snd (run_schedule env0 [0, 1, 1, 0]
                    (map (\<lambda>(p, a). final_steps p a) two_sessions) world1))
                 ''standup_2025-01-02.json'') =
             records_of (files world1 ''standup_2025-01-02.json'') @ new \<and>
          length new = length two_sessions) \<and>
   records_of (files world1 ''standup_2025-01-02.json'') = [earlier_record] \<and>
   length two_sessions = 2"
proof -
  have a: "\<forall>k. publish_ok env0 k" by (simp add: env0_def)
  have b: "\<forall>k. transcript_filename env0 (clock env0 k) = ''standup_2025-01-02.json''"
    by (simp add: env0_def transcript_filename_def)
  have c: "\<forall>s \<in> set two_sessions. strip (alt_text (snd s)) \<noteq> []"
    by (simp add: two_sessions_def hello_def hello_plain_def strip_def is_space_def)
  have d: "appendable (files world1 ''standup_2025-01-02.json'')"
    by (simp add: world1_def world0_def appendable_def load_transcripts_def)
  have f: "fst (run_schedule env0 [0, 1, 1, 0]
                 (map (\<lambda>(p, a). final_steps p a) two_sessions) world1) =
           replicate (length two_sessions) []"
    by code_simp
  have g: "records_of (files world1 ''standup_2025-01-02.json'') = [earlier_record]"
    by (simp add: world1_def world0_def records_of_def load_transcripts_def)
  have h: "length two_sessions = 2"
    by (simp add: two_sessions_def)
  from concurrent_appends_all_kept [OF a b c d f] g h show ?thesis
    by blast
qed

end
